theory Spec2Isabelle
  imports Main
begin

section \<open>A word-guessing game: the evaluator and the game session\<close>

text \<open>
  The game logic of the script is embedded function by function. The module-level
  variables of the script, together with the parts of the document that the logic reads
  back or that show its results (the text of the tiles, the message area, the disabled
  flags of the keyboard and of the hint button), are the fields of one record that every
  operation takes and returns. What is presentation only is left out: the style classes
  of tiles and keys, the shake animation, and the statistics panel, which repeats the
  three counters. The document is taken to hold the board, the message area and the
  buttons of the page, so the guards against a missing element of these do not fire; a
  missing tile is modelled.

  Strings are lists of characters. The letters that reach the logic are ASCII (the key
  handler admits \<open>A\<close>..\<open>Z\<close> only, the answer list is ASCII), and \<open>toUpperCase\<close> is
  embedded on that range. The counters are natural numbers.
\<close>

subsection \<open>Constants and letters\<close>

definition NUM_ROWS :: nat where
  "NUM_ROWS = 6"

definition NUM_COLS :: nat where
  "NUM_COLS = 5"

definition isLowerLetter :: "char \<Rightarrow> bool" where
  "isLowerLetter c = (97 \<le> (of_char c :: nat) \<and> (of_char c :: nat) \<le> 122)"

text \<open>The character class \<open>[A-Z]\<close> of the key handler.\<close>

definition isUpperLetter :: "char \<Rightarrow> bool" where
  "isUpperLetter c = (65 \<le> (of_char c :: nat) \<and> (of_char c :: nat) \<le> 90)"

text \<open>\<open>ch.toUpperCase()\<close> for one ASCII character.\<close>

definition toUpperCase :: "char \<Rightarrow> char" where
  "toUpperCase c = (if isLowerLetter c then char_of ((of_char c :: nat) - 32) else c)"

text \<open>A word of the data model: \<open>NUM_COLS\<close> upper-case letters.\<close>

definition isWord :: "string \<Rightarrow> bool" where
  "isWord w = (length w = NUM_COLS \<and> list_all isUpperLetter w)"

subsection \<open>The evaluator\<close>

text \<open>The three status tags \<open>"correct"\<close>, \<open>"present"\<close>, \<open>"absent"\<close>.\<close>

datatype status = Correct | Present | Absent

text \<open>
  Reading \<open>guessChars[i]\<close> or \<open>secretChars[i]\<close> past the end of the string gives
  \<open>undefined\<close>, and calling \<open>toUpperCase\<close> on it throws.
\<close>

datatype error = TypeError

type_synonym counts = "char \<rightharpoonup> int"

text \<open>\<open>letterCounts[upper] = (letterCounts[upper] || 0) + 1\<close>\<close>

definition countLetter :: "char \<Rightarrow> counts \<Rightarrow> counts" where
  "countLetter ch lc =
     (let upper = toUpperCase ch
      in lc(upper \<mapsto> (case lc upper of None \<Rightarrow> 0 | Some n \<Rightarrow> n) + 1))"

text \<open>
  \<open>letterCounts[g] -= 1\<close>. Both passes decrement a key that is present (in the first
  pass \<open>g\<close> is the upper-cased secret letter at the same position, in the second the
  count was just found positive), so the case of a missing key, where the script would
  store NaN, is never taken.
\<close>

definition decrement :: "char \<Rightarrow> counts \<Rightarrow> counts" where
  "decrement g lc = (case lc g of None \<Rightarrow> lc | Some n \<Rightarrow> lc(g \<mapsto> n - 1))"

text \<open>\<open>letterCounts[g] > 0\<close>: false for a missing key.\<close>

definition positive :: "counts \<Rightarrow> char \<Rightarrow> bool" where
  "positive lc g = (case lc g of None \<Rightarrow> False | Some n \<Rightarrow> 0 < n)"

text \<open>A \<open>for\<close> loop over the given indices whose body may throw.\<close>

primrec forLoop :: "nat list \<Rightarrow> (nat \<Rightarrow> 'a \<Rightarrow> error + 'a) \<Rightarrow> 'a \<Rightarrow> error + 'a" where
  "forLoop [] body a = Inr a"
| "forLoop (i # is) body a =
     (case body i a of Inl e \<Rightarrow> Inl e | Inr a' \<Rightarrow> forLoop is body a')"

text \<open>The body of the first pass: mark correct positions.\<close>

definition firstPass ::
  "string \<Rightarrow> string \<Rightarrow> nat \<Rightarrow> status list \<times> counts \<Rightarrow> error + status list \<times> counts" where
  "firstPass guessChars secretChars i st =
     (case st of (result, letterCounts) \<Rightarrow>
        if length guessChars \<le> i then Inl TypeError
        else if length secretChars \<le> i then Inl TypeError
        else
          let g = toUpperCase (guessChars ! i);
              s = toUpperCase (secretChars ! i)
          in if g = s then Inr (result[i := Correct], decrement g letterCounts)
             else Inr (result, letterCounts))"

text \<open>The body of the second pass: mark present letters.\<close>

definition secondPass ::
  "string \<Rightarrow> nat \<Rightarrow> status list \<times> counts \<Rightarrow> error + status list \<times> counts" where
  "secondPass guessChars i st =
     (case st of (result, letterCounts) \<Rightarrow>
        if result ! i = Correct then Inr (result, letterCounts)
        else if length guessChars \<le> i then Inl TypeError
        else
          let g = toUpperCase (guessChars ! i)
          in if positive letterCounts g
             then Inr (result[i := Present], decrement g letterCounts)
             else Inr (result[i := Absent], letterCounts))"

definition evaluateGuess :: "string \<Rightarrow> string \<Rightarrow> error + status list" where
  "evaluateGuess guess secret =
     (let result = replicate NUM_COLS Absent;
          letterCounts = fold countLetter secret Map.empty
      in case forLoop [0..<NUM_COLS] (firstPass guess secret) (result, letterCounts) of
           Inl e \<Rightarrow> Inl e
         | Inr st \<Rightarrow>
             (case forLoop [0..<NUM_COLS] (secondPass guess) st of
                Inl e \<Rightarrow> Inl e
              | Inr (result', letterCounts') \<Rightarrow> Inr result'))"

subsection \<open>The game session\<close>

text \<open>
  The text shown in the message area. Each constructor stands for one of the texts the
  script passes to \<open>showMessage\<close>: the empty text, "Not enough letters",
  "Not in word list", "You won!" (followed by a party symbol),
  "You lost. The word was W." and "Hint: The word starts with "L".".
\<close>

datatype message =
    NoMessage
  | NotEnoughLetters
  | NotInWordList
  | YouWon
  | YouLost string
  | HintMessage char

text \<open>
  The module-level variables, and the document state the logic depends on: \<open>tiles\<close>
  maps a position of the board to the text of its tile (no entry where the document has
  no such tile, the case in which \<open>getTile\<close> returns null).
\<close>

record game =
  secretWord :: string
  currentRow :: nat
  currentCol :: nat
  isGameOver :: bool
  hasAttachedKeyboardListeners :: bool
  hasUsedHint :: bool
  gamesPlayed :: nat
  gamesWon :: nat
  currentStreak :: nat
  keyStatuses :: "char \<rightharpoonup> status"
  tiles :: "nat \<times> nat \<rightharpoonup> string"
  message :: message
  keyboardDisabled :: bool
  hintDisabled :: bool

definition ANSWER_WORDS :: "string list" where
  "ANSWER_WORDS =
     [''APPLE'', ''GRAPE'', ''PLANT'', ''BRAVE'', ''TRAIN'',
      ''LIGHT'', ''CLOUD'', ''SMILE'', ''CRANE'', ''STONE'']"

text \<open>The state of the script when the page has loaded, before \<open>initGame\<close> runs.\<close>

definition pageLoaded :: game where
  "pageLoaded =
     \<lparr> secretWord = [], currentRow = 0, currentCol = 0, isGameOver = False,
       hasAttachedKeyboardListeners = False, hasUsedHint = False,
       gamesPlayed = 0, gamesWon = 0, currentStreak = 0,
       keyStatuses = Map.empty, tiles = Map.empty, message = NoMessage,
       keyboardDisabled = False, hintDisabled = False \<rparr>"

definition showMessage :: "message \<Rightarrow> game \<Rightarrow> game" where
  "showMessage text g = g\<lparr>message := text\<rparr>"

definition clearMessage :: "game \<Rightarrow> game" where
  "clearMessage g = showMessage NoMessage g"

text \<open>
  \<open>showTemporaryMessage\<close> shows the text at once; the \<open>clearMessage\<close> it schedules
  is a later event of its own.
\<close>

definition showTemporaryMessage :: "message \<Rightarrow> game \<Rightarrow> game" where
  "showTemporaryMessage text g = showMessage text g"

text \<open>\<open>buildBoard\<close>: a fresh board of \<open>NUM_ROWS\<close> by \<open>NUM_COLS\<close> empty tiles.\<close>

definition buildBoard :: "game \<Rightarrow> game" where
  "buildBoard g =
     g\<lparr>tiles := (\<lambda>(row, col). if row < NUM_ROWS \<and> col < NUM_COLS then Some [] else None)\<rparr>"

definition enableKeyboard :: "game \<Rightarrow> game" where
  "enableKeyboard g = g\<lparr>keyboardDisabled := False\<rparr>"

definition disableKeyboard :: "game \<Rightarrow> game" where
  "disableKeyboard g = g\<lparr>keyboardDisabled := True\<rparr>"

text \<open>
  \<open>initGame\<close>. The index drawn by \<open>Math.floor(Math.random() * ANSWER_WORDS.length)\<close>
  is a parameter; it lies below \<open>length ANSWER_WORDS\<close>.
\<close>

definition initGame :: "nat \<Rightarrow> game \<Rightarrow> game" where
  "initGame randomIndex g =
     (if ANSWER_WORDS = [] then g
      else
        let g1 = g\<lparr>secretWord := [], currentRow := 0, currentCol := 0,
                    isGameOver := False, hasUsedHint := False\<rparr>;
            g2 = g1\<lparr>keyStatuses := Map.empty\<rparr>;
            g3 = g2\<lparr>secretWord := map toUpperCase (ANSWER_WORDS ! randomIndex)\<rparr>;
            g4 = buildBoard g3;
            g5 = g4\<lparr>hasAttachedKeyboardListeners := True\<rparr>;
            g6 = enableKeyboard g5;
            g7 = clearMessage g6
        in g7\<lparr>hintDisabled := False\<rparr>)"

definition getTile :: "nat \<Rightarrow> nat \<Rightarrow> game \<Rightarrow> string option" where
  "getTile row col g = tiles g (row, col)"

definition addLetter :: "char \<Rightarrow> game \<Rightarrow> game" where
  "addLetter letter g =
     (if NUM_COLS \<le> currentCol g \<or> NUM_ROWS \<le> currentRow g then g
      else case getTile (currentRow g) (currentCol g) g of
             None \<Rightarrow> g
           | Some t \<Rightarrow>
               g\<lparr>tiles := (tiles g)((currentRow g, currentCol g) \<mapsto> [letter]),
                  currentCol := currentCol g + 1\<rparr>)"

definition deleteLetter :: "game \<Rightarrow> game" where
  "deleteLetter g =
     (if currentCol g = 0 \<or> NUM_ROWS \<le> currentRow g then g
      else
        let g1 = g\<lparr>currentCol := currentCol g - 1\<rparr>
        in case getTile (currentRow g1) (currentCol g1) g1 of
             None \<Rightarrow> g1
           | Some t \<Rightarrow> g1\<lparr>tiles := (tiles g1)((currentRow g1, currentCol g1) \<mapsto> [])\<rparr>)"

text \<open>\<open>getCurrentGuess\<close>: missing and empty tiles are skipped.\<close>

definition getCurrentGuess :: "game \<Rightarrow> string" where
  "getCurrentGuess g =
     concat (map (\<lambda>col. case getTile (currentRow g) col g of
                           None \<Rightarrow> []
                         | Some t \<Rightarrow> map toUpperCase t)
                 [0..<NUM_COLS])"

definition isValidGuess :: "string \<Rightarrow> bool" where
  "isValidGuess guess = (length guess = NUM_COLS)"

definition priority :: "status \<Rightarrow> nat" where
  "priority st = (case st of Correct \<Rightarrow> 3 | Present \<Rightarrow> 2 | Absent \<Rightarrow> 1)"

definition updateKeyStatus :: "char \<Rightarrow> status \<Rightarrow> game \<Rightarrow> game" where
  "updateKeyStatus letter newStatus g =
     (case keyStatuses g letter of
        None \<Rightarrow> g\<lparr>keyStatuses := (keyStatuses g)(letter \<mapsto> newStatus)\<rparr>
      | Some current \<Rightarrow>
          if priority current < priority newStatus
          then g\<lparr>keyStatuses := (keyStatuses g)(letter \<mapsto> newStatus)\<rparr>
          else g)"

text \<open>
  \<open>revealEvaluation\<close> is called from \<open>submitGuess\<close> with a guess of \<open>NUM_COLS\<close>
  characters and its evaluation, so \<open>guess[col]\<close> and \<open>evaluation[col]\<close> are in range.
\<close>

definition revealEvaluation :: "nat \<Rightarrow> string \<Rightarrow> status list \<Rightarrow> game \<Rightarrow> game" where
  "revealEvaluation row guess evaluation g =
     fold (\<lambda>col g'. case getTile row col g' of
                      None \<Rightarrow> g'
                    | Some t \<Rightarrow> updateKeyStatus (toUpperCase (guess ! col)) (evaluation ! col) g')
          [0..<NUM_COLS] g"

definition endGame :: "bool \<Rightarrow> game \<Rightarrow> game" where
  "endGame didWin g =
     (let g1 = g\<lparr>isGameOver := True\<rparr>;
          g2 = g1\<lparr>gamesPlayed := gamesPlayed g1 + 1\<rparr>;
          g3 = (if didWin
                then g2\<lparr>gamesWon := gamesWon g2 + 1, currentStreak := currentStreak g2 + 1\<rparr>
                else g2\<lparr>currentStreak := 0\<rparr>);
          g4 = (if didWin then showMessage YouWon g3
                else showMessage (YouLost (secretWord g3)) g3);
          g5 = disableKeyboard g4
      in g5\<lparr>hintDisabled := True\<rparr>)"

text \<open>
  \<open>submitGuess\<close>. An exception thrown by \<open>evaluateGuess\<close> leaves it before anything
  has been changed.
\<close>

definition submitGuess :: "game \<Rightarrow> error + game" where
  "submitGuess g =
     (if currentCol g < NUM_COLS then Inr (showTemporaryMessage NotEnoughLetters g)
      else
        let guess = getCurrentGuess g
        in if \<not> isValidGuess guess then Inr (showTemporaryMessage NotInWordList g)
           else case evaluateGuess guess (secretWord g) of
                  Inl e \<Rightarrow> Inl e
                | Inr evaluation \<Rightarrow>
                    let g1 = revealEvaluation (currentRow g) guess evaluation g
                    in if guess = secretWord g1 then Inr (endGame True g1)
                       else
                         let g2 = g1\<lparr>currentRow := currentRow g1 + 1, currentCol := 0\<rparr>
                         in if currentRow g2 = NUM_ROWS then Inr (endGame False g2)
                            else Inr g2)"

text \<open>\<open>handleKey\<close>: the key is \<open>"Enter"\<close>, \<open>"Backspace"\<close> or one letter of \<open>[A-Z]\<close>.\<close>

definition handleKey :: "string \<Rightarrow> game \<Rightarrow> error + game" where
  "handleKey key g =
     (if isGameOver g then Inr g
      else if key = ''Enter'' then submitGuess g
      else if key = ''Backspace'' then Inr (deleteLetter g)
      else if length key = 1 \<and> isUpperLetter (hd key) then Inr (addLetter (hd key) g)
      else Inr g)"

text \<open>\<open>handleHint\<close>: the one-time hint of the current game.\<close>

definition handleHint :: "game \<Rightarrow> game" where
  "handleHint g =
     (if isGameOver g \<or> hasUsedHint g \<or> secretWord g = [] then g
      else
        let g1 = g\<lparr>hasUsedHint := True\<rparr>;
            g2 = g1\<lparr>hintDisabled := True\<rparr>;
            firstLetter = hd (secretWord g2)
        in showMessage (HintMessage firstLetter) g2)"

text \<open>
  One key event. A click on a key of the on-screen keyboard calls \<open>handleKey\<close> with
  the value of the key; the listener for the physical keyboard calls it with the
  upper-cased letter, \<open>"Enter"\<close> or \<open>"Backspace"\<close>. The handler runs to completion, and
  an exception it throws ends it with the state as it is at that point (here: unchanged).
\<close>

definition keyEvent :: "string \<Rightarrow> game \<Rightarrow> game" where
  "keyEvent key g = (case handleKey key g of Inl e \<Rightarrow> g | Inr g' \<Rightarrow> g')"

text \<open>A sequence of key events, first to last.\<close>

definition play :: "string list \<Rightarrow> game \<Rightarrow> game" where
  "play keys g = fold keyEvent keys g"

text \<open>
  The events of one game: key events and clicks on the hint button. (A click on the
  restart button starts the next game with \<open>initGame\<close>.)
\<close>

datatype action = KeyPress string | HintClick

definition act :: "action \<Rightarrow> game \<Rightarrow> game" where
  "act a g = (case a of KeyPress key \<Rightarrow> keyEvent key g | HintClick \<Rightarrow> handleHint g)"

definition course :: "action list \<Rightarrow> game \<Rightarrow> game" where
  "course actions g = fold act actions g"

section \<open>Notions used to state and prove the properties\<close>

subsection \<open>Counting letters\<close>

text \<open>The count stored for a letter, with a missing key read as zero.\<close>

definition remaining :: "counts \<Rightarrow> char \<Rightarrow> int" where
  "remaining lc L = (case lc L of None \<Rightarrow> 0 | Some n \<Rightarrow> n)"

text \<open>How often a letter occurs in a string, compared after upper-casing.\<close>

definition occurrences :: "string \<Rightarrow> char \<Rightarrow> int" where
  "occurrences s L = int (length (filter (\<lambda>c. toUpperCase c = L) s))"

text \<open>
  How many of the \<open>NUM_COLS\<close> positions of the guess carry the letter and are marked
  other than \<open>Absent\<close>.
\<close>

definition credit :: "string \<Rightarrow> status list \<Rightarrow> char \<Rightarrow> int" where
  "credit guess result L =
     (\<Sum>j<NUM_COLS. if toUpperCase (guess ! j) = L \<and> result ! j \<noteq> Absent then 1 else 0)"

text \<open>
  The loop invariants of the two passes, before the step at index \<open>i\<close>. In the
  first pass the count left for a letter still covers its occurrences in the rest of the
  secret; in both passes the marks given plus the count left make up the occurrences in
  the secret.
\<close>

definition firstInv :: "string \<Rightarrow> string \<Rightarrow> nat \<Rightarrow> status list \<times> counts \<Rightarrow> bool" where
  "firstInv guess secret i st =
     (case st of (result, lc) \<Rightarrow>
        length result = NUM_COLS \<and>
        (\<forall>j<NUM_COLS. result ! j =
           (if j < i \<and> toUpperCase (guess ! j) = toUpperCase (secret ! j) then Correct else Absent)) \<and>
        (\<forall>L. occurrences (drop i secret) L \<le> remaining lc L \<and>
             credit guess result L + remaining lc L = occurrences secret L))"

definition secondInv :: "string \<Rightarrow> string \<Rightarrow> nat \<Rightarrow> status list \<times> counts \<Rightarrow> bool" where
  "secondInv guess secret i st =
     (case st of (result, lc) \<Rightarrow>
        length result = NUM_COLS \<and>
        (\<forall>j<NUM_COLS. (result ! j = Correct) = (toUpperCase (guess ! j) = toUpperCase (secret ! j))) \<and>
        (\<forall>j<NUM_COLS. i \<le> j \<longrightarrow> result ! j \<noteq> Present) \<and>
        (\<forall>L. 0 \<le> remaining lc L \<and>
             credit guess result L + remaining lc L = occurrences secret L))"

subsection \<open>Courses of a game\<close>

text \<open>The key events of typing a word and pressing Enter.\<close>

definition typeGuess :: "string \<Rightarrow> string list" where
  "typeGuess w = map (\<lambda>c. [c]) w @ [''Enter'']"

text \<open>
  The guesses that pass both checks of \<open>submitGuess\<close> in the course of a sequence of
  key events, in the order in which they are submitted.
\<close>

fun submitted :: "string list \<Rightarrow> game \<Rightarrow> string list" where
  "submitted [] g = []"
| "submitted (key # keys) g =
     (if \<not> isGameOver g \<and> key = ''Enter'' \<and> NUM_COLS \<le> currentCol g \<and>
         isValidGuess (getCurrentGuess g)
      then getCurrentGuess g # submitted keys (keyEvent key g)
      else submitted keys (keyEvent key g))"

text \<open>
  The invariant behind the bounds of the cursor: the column is reset whenever the row
  moves on, so in the row past the last one the column is zero.
\<close>

definition withinBounds :: "game \<Rightarrow> bool" where
  "withinBounds g =
     (currentCol g \<le> NUM_COLS \<and> currentRow g \<le> NUM_ROWS \<and>
      (if currentRow g = NUM_ROWS then currentCol g = 0 else True))"

text \<open>
  The order in which a key status may change: a letter without a status may get any, a
  letter with a status keeps it or gets one of strictly higher priority.
\<close>

definition improved :: "status option \<Rightarrow> status option \<Rightarrow> bool" where
  "improved before after =
     (case before of
        None \<Rightarrow> True
      | Some old \<Rightarrow>
          (case after of None \<Rightarrow> False | Some new \<Rightarrow> new = old \<or> priority old < priority new))"

section \<open>Properties of the evaluator\<close>

lemma toUpperCase_upper: "isUpperLetter c \<Longrightarrow> toUpperCase c = c"
  by (simp add: toUpperCase_def isUpperLetter_def isLowerLetter_def)

lemma isWord_nth: "isWord w \<Longrightarrow> i < NUM_COLS \<Longrightarrow> toUpperCase (w ! i) = w ! i"
  by (simp add: isWord_def list_all_length toUpperCase_upper)

text \<open>Loops over an index range, with an invariant that every step re-establishes.\<close>

lemma forLoop_upt_invariant:
  assumes "I m a" and "m \<le> n"
    and "\<And>i a. m \<le> i \<Longrightarrow> i < n \<Longrightarrow> I i a \<Longrightarrow> \<exists>a'. body i a = Inr a' \<and> I (Suc i) a'"
  shows "\<exists>b. forLoop [m..<n] body a = Inr b \<and> I n b"
  using assms
proof (induction "n - m" arbitrary: m a)
  case 0
  then show ?case by simp
next
  case (Suc k)
  then have lt: "m < n" by simp
  from Suc.prems(3)[of m a] Suc.prems(1) lt
  obtain a' where a': "body m a = Inr a'" "I (Suc m) a'" by auto
  have "\<exists>b. forLoop [Suc m..<n] body a' = Inr b \<and> I n b"
  proof (rule Suc.hyps(1))
    show "k = n - Suc m" using Suc.hyps(2) by simp
    show "I (Suc m) a'" by (rule a')
    show "Suc m \<le> n" using lt by simp
    show "\<And>i a. Suc m \<le> i \<Longrightarrow> i < n \<Longrightarrow> I i a \<Longrightarrow> \<exists>a'. body i a = Inr a' \<and> I (Suc i) a'"
      using Suc.prems(3) by simp
  qed
  then show ?case using lt a' by (simp add: upt_conv_Cons)
qed

lemma remaining_countLetter:
  "remaining (countLetter ch lc) L = remaining lc L + (if toUpperCase ch = L then 1 else 0)"
  by (simp add: remaining_def countLetter_def Let_def)

lemma remaining_fold_countLetter:
  "remaining (fold countLetter s lc) L = remaining lc L + occurrences s L"
  by (induction s arbitrary: lc) (simp_all add: occurrences_def remaining_countLetter)

lemma remaining_decrement:
  "0 < remaining lc g \<Longrightarrow>
   remaining (decrement g lc) L = remaining lc L - (if g = L then 1 else 0)"
  by (auto simp: remaining_def decrement_def split: option.splits)

lemma positive_remaining: "positive lc g = (0 < remaining lc g)"
  by (simp add: positive_def remaining_def split: option.splits)

lemma credit_update:
  assumes "i < NUM_COLS" and "result ! i = Absent" and "x \<noteq> Absent"
    and "length result = NUM_COLS"
  shows "credit guess (result[i := x]) L =
         credit guess result L + (if toUpperCase (guess ! i) = L then 1 else 0)"
proof -
  let ?f = "\<lambda>r j. if toUpperCase (guess ! j) = L \<and> r ! j \<noteq> Absent then (1::int) else 0"
  have i: "i \<in> {..<NUM_COLS}" using assms(1) by simp
  have "sum (?f (result[i := x])) ({..<NUM_COLS} - {i}) = sum (?f result) ({..<NUM_COLS} - {i})"
    by (rule sum.cong) auto
  moreover have "?f (result[i := x]) i = (if toUpperCase (guess ! i) = L then 1 else 0)"
    using assms by simp
  moreover have "?f result i = 0" using assms by simp
  ultimately show ?thesis
    unfolding credit_def
    by (simp add: sum.remove[OF finite_lessThan i])
qed

lemma credit_replicate: "credit guess (replicate NUM_COLS Absent) L = 0"
  by (simp add: credit_def)

lemma occurrences_drop:
  "i < length s \<Longrightarrow>
   occurrences (drop i s) L =
     occurrences (drop (Suc i) s) L + (if toUpperCase (s ! i) = L then 1 else 0)"
  by (simp add: occurrences_def flip: Cons_nth_drop_Suc)

lemma occurrences_nonneg: "0 \<le> occurrences s L"
  by (simp add: occurrences_def)

lemma remaining_empty: "remaining Map.empty L = 0"
  by (simp add: remaining_def)

lemma firstInv_init:
  "firstInv guess secret 0 (replicate NUM_COLS Absent, fold countLetter secret Map.empty)"
  by (simp add: firstInv_def credit_replicate remaining_fold_countLetter remaining_empty)

lemma firstPass_step:
  assumes len: "NUM_COLS \<le> length guess" "NUM_COLS \<le> length secret"
    and i: "i < NUM_COLS" and inv: "firstInv guess secret i st"
  shows "\<exists>st'. firstPass guess secret i st = Inr st' \<and> firstInv guess secret (Suc i) st'"
proof -
  obtain result lc where st: "st = (result, lc)" by (cases st)
  let ?g = "toUpperCase (guess ! i)" and ?s = "toUpperCase (secret ! i)"
  from inv st have lr: "length result = NUM_COLS"
    and res: "\<And>j. j < NUM_COLS \<Longrightarrow> result ! j =
           (if j < i \<and> toUpperCase (guess ! j) = toUpperCase (secret ! j) then Correct else Absent)"
    and low: "\<And>L. occurrences (drop i secret) L \<le> remaining lc L"
    and bal: "\<And>L. credit guess result L + remaining lc L = occurrences secret L"
    by (simp_all add: firstInv_def)
  have isec: "i < length secret" and ig: "i < length guess" using len i by simp_all
  have drop: "\<And>L. occurrences (drop i secret) L =
      occurrences (drop (Suc i) secret) L + (if ?s = L then 1 else 0)"
    by (rule occurrences_drop[OF isec])
  show ?thesis
  proof (cases "?g = ?s")
    case False
    then have "firstPass guess secret i st = Inr (result, lc)"
      using isec ig st by (simp add: firstPass_def)
    moreover have "firstInv guess secret (Suc i) (result, lc)"
      unfolding firstInv_def using lr res low bal drop False
      by (auto simp: less_Suc_eq intro: order_trans[OF _ low])
    ultimately show ?thesis by blast
  next
    case True
    have absent: "result ! i = Absent" using res[OF i] by simp
    have pos: "0 < remaining lc ?g"
      using low[of ?s] drop[of ?s] occurrences_nonneg[of "drop (Suc i) secret" ?s] True by simp
    have dec: "\<And>L. remaining (decrement ?g lc) L = remaining lc L - (if ?g = L then 1 else 0)"
      by (rule remaining_decrement[OF pos])
    have cre: "\<And>L. credit guess (result[i := Correct]) L =
        credit guess result L + (if ?g = L then 1 else 0)"
      by (rule credit_update[OF i absent _ lr]) simp
    have "firstPass guess secret i st = Inr (result[i := Correct], decrement ?g lc)"
      using isec ig st True by (simp add: firstPass_def)
    moreover have "firstInv guess secret (Suc i) (result[i := Correct], decrement ?g lc)"
      unfolding firstInv_def
    proof (simp only: prod.case, intro conjI allI impI)
      show "length (result[i := Correct]) = NUM_COLS" using lr by simp
    next
      fix j assume "j < NUM_COLS"
      then show "result[i := Correct] ! j =
           (if j < Suc i \<and> toUpperCase (guess ! j) = toUpperCase (secret ! j) then Correct else Absent)"
        using res[of j] lr i True by (cases "j = i") (auto simp: less_Suc_eq)
    next
      fix L
      show "occurrences (drop (Suc i) secret) L \<le> remaining (decrement ?g lc) L"
        using low[of L] drop[of L] True dec[of L] by (simp split: if_splits)
    next
      fix L
      show "credit guess (result[i := Correct]) L + remaining (decrement ?g lc) L = occurrences secret L"
        using bal[of L] dec[of L] cre[of L] by (simp split: if_splits)
    qed
    ultimately show ?thesis by blast
  qed
qed

lemma first_to_second:
  "firstInv guess secret NUM_COLS st \<Longrightarrow> secondInv guess secret 0 st"
  apply (cases st)
  apply (simp add: firstInv_def secondInv_def)
  apply (intro allI)
  subgoal for a b L
    using occurrences_nonneg[of "drop NUM_COLS secret" L] by (auto dest: spec[where x=L])
  done

lemma secondPass_step:
  assumes len: "NUM_COLS \<le> length guess"
    and i: "i < NUM_COLS" and inv: "secondInv guess secret i st"
  shows "\<exists>st'. secondPass guess i st = Inr st' \<and> secondInv guess secret (Suc i) st'"
proof -
  obtain result lc where st: "st = (result, lc)" by (cases st)
  let ?g = "toUpperCase (guess ! i)"
  from inv st have lr: "length result = NUM_COLS"
    and res: "\<And>j. j < NUM_COLS \<Longrightarrow>
        (result ! j = Correct) = (toUpperCase (guess ! j) = toUpperCase (secret ! j))"
    and later: "\<And>j. j < NUM_COLS \<Longrightarrow> i \<le> j \<Longrightarrow> result ! j \<noteq> Present"
    and nonneg: "\<And>L. 0 \<le> remaining lc L"
    and bal: "\<And>L. credit guess result L + remaining lc L = occurrences secret L"
    by (simp_all add: secondInv_def)
  have ig: "i < length guess" using len i by simp
  consider (correct) "result ! i = Correct"
    | (present) "result ! i \<noteq> Correct" "positive lc ?g"
    | (absent) "result ! i \<noteq> Correct" "\<not> positive lc ?g"
    by blast
  then show ?thesis
  proof cases
    case correct
    then have "secondPass guess i st = Inr (result, lc)"
      using st by (simp add: secondPass_def)
    moreover have "secondInv guess secret (Suc i) (result, lc)"
      unfolding secondInv_def using lr res later nonneg bal by auto
    ultimately show ?thesis by blast
  next
    case present
    have absent: "result ! i = Absent"
      using present(1) later[OF i] by (cases "result ! i") auto
    have pos: "0 < remaining lc ?g" using present(2) by (simp add: positive_remaining)
    have "secondPass guess i st = Inr (result[i := Present], decrement ?g lc)"
      using st present ig by (simp add: secondPass_def)
    moreover have "secondInv guess secret (Suc i) (result[i := Present], decrement ?g lc)"
      unfolding secondInv_def
    proof (simp only: prod.case, intro conjI allI impI)
      show "length (result[i := Present]) = NUM_COLS" using lr by simp
    next
      fix j assume "j < NUM_COLS"
      then show "(result[i := Present] ! j = Correct) =
          (toUpperCase (guess ! j) = toUpperCase (secret ! j))"
        using res[of j] lr i present(1) by (cases "j = i") auto
    next
      fix j assume "j < NUM_COLS" "Suc i \<le> j"
      then show "result[i := Present] ! j \<noteq> Present"
        using later[of j] by simp
    next
      fix L
      show "0 \<le> remaining (decrement ?g lc) L"
        using nonneg[of L] pos by (auto simp: remaining_decrement[OF pos])
    next
      fix L
      show "credit guess (result[i := Present]) L + remaining (decrement ?g lc) L = occurrences secret L"
        using bal[of L] by (simp add: remaining_decrement[OF pos] credit_update[OF i absent _ lr])
    qed
    ultimately show ?thesis by blast
  next
    case absent
    have abs: "result ! i = Absent"
      using absent(1) later[OF i] by (cases "result ! i") auto
    have same: "result[i := Absent] = result"
      using abs by (metis list_update_id)
    have "secondPass guess i st = Inr (result, lc)"
      using st absent ig same by (simp add: secondPass_def)
    moreover have "secondInv guess secret (Suc i) (result, lc)"
      unfolding secondInv_def using lr res later nonneg bal by auto
    ultimately show ?thesis by blast
  qed
qed

lemma evaluateGuess_invariant:
  assumes len: "NUM_COLS \<le> length guess" "NUM_COLS \<le> length secret"
  shows "\<exists>result lc. evaluateGuess guess secret = Inr result \<and>
           secondInv guess secret NUM_COLS (result, lc)"
proof -
  have "\<exists>st. forLoop [0..<NUM_COLS] (firstPass guess secret)
          (replicate NUM_COLS Absent, fold countLetter secret Map.empty) = Inr st \<and>
          firstInv guess secret NUM_COLS st"
  proof (rule forLoop_upt_invariant[where I = "firstInv guess secret"])
    show "firstInv guess secret 0 (replicate NUM_COLS Absent, fold countLetter secret Map.empty)"
      by (rule firstInv_init)
    show "0 \<le> NUM_COLS" by simp
    show "\<And>i a. 0 \<le> i \<Longrightarrow> i < NUM_COLS \<Longrightarrow> firstInv guess secret i a \<Longrightarrow>
        \<exists>a'. firstPass guess secret i a = Inr a' \<and> firstInv guess secret (Suc i) a'"
      by (rule firstPass_step[OF len])
  qed
  then obtain st1 where st1: "forLoop [0..<NUM_COLS] (firstPass guess secret)
          (replicate NUM_COLS Absent, fold countLetter secret Map.empty) = Inr st1"
    and inv1: "firstInv guess secret NUM_COLS st1" by blast
  have "\<exists>st. forLoop [0..<NUM_COLS] (secondPass guess) st1 = Inr st \<and>
          secondInv guess secret NUM_COLS st"
  proof (rule forLoop_upt_invariant[where I = "secondInv guess secret"])
    show "secondInv guess secret 0 st1" by (rule first_to_second[OF inv1])
    show "0 \<le> NUM_COLS" by simp
    show "\<And>i a. 0 \<le> i \<Longrightarrow> i < NUM_COLS \<Longrightarrow> secondInv guess secret i a \<Longrightarrow>
        \<exists>a'. secondPass guess i a = Inr a' \<and> secondInv guess secret (Suc i) a'"
      by (rule secondPass_step[OF len(1)])
  qed
  then obtain st2 where st2: "forLoop [0..<NUM_COLS] (secondPass guess) st1 = Inr st2"
    and inv2: "secondInv guess secret NUM_COLS st2" by blast
  obtain result lc where r: "st2 = (result, lc)" by (cases st2)
  have "evaluateGuess guess secret = Inr result"
    using st1 st2 r by (simp add: evaluateGuess_def)
  then show ?thesis using inv2 r by blast
qed

lemma isWord_length: "isWord w \<Longrightarrow> NUM_COLS \<le> length w"
  by (simp add: isWord_def)

lemma length_filter_upt_sum:
  "int (length (filter P [0..<n])) = (\<Sum>j<n. if P j then 1 else 0)"
  by (induction n) simp_all

lemma occurrences_word: "isWord w \<Longrightarrow> occurrences w L = int (count_list w L)"
proof -
  assume "isWord w"
  then have "filter (\<lambda>c. toUpperCase c = L) w = filter ((=) L) w"
    by (intro filter_cong) (auto simp: isWord_def list_all_iff toUpperCase_upper)
  then show ?thesis
    by (simp add: occurrences_def count_list_eq_length_filter)
qed

lemma credit_word:
  assumes "isWord guess"
  shows "credit guess result L =
    int (length (filter (\<lambda>i. guess ! i = L \<and> (result ! i = Correct \<or> result ! i = Present))
                   [0..<NUM_COLS]))"
proof -
  have "(result ! j \<noteq> Absent) = (result ! j = Correct \<or> result ! j = Present)" for j
    by (cases "result ! j") simp_all
  then show ?thesis
    unfolding credit_def length_filter_upt_sum
    by (intro sum.cong) (simp_all add: isWord_nth[OF assms])
qed

text \<open>
  The two properties of the evaluation for strings of any letters, as long as both have
  at least \<open>NUM_COLS\<close> characters: letters are compared after upper-casing.
\<close>

lemma evaluateGuess_correct_any_case:
  assumes "NUM_COLS \<le> length guess" and "NUM_COLS \<le> length secret"
  shows "\<exists>r. evaluateGuess guess secret = Inr r \<and> length r = NUM_COLS \<and>
           (\<forall>i<NUM_COLS. (r ! i = Correct) =
              (toUpperCase (guess ! i) = toUpperCase (secret ! i)))"
proof -
  obtain r lc where "evaluateGuess guess secret = Inr r"
    and "secondInv guess secret NUM_COLS (r, lc)"
    using evaluateGuess_invariant[OF assms] by blast
  then show ?thesis by (auto simp: secondInv_def)
qed

lemma evaluateGuess_credit_any_case:
  assumes "NUM_COLS \<le> length guess" and "NUM_COLS \<le> length secret"
  shows "\<exists>r. evaluateGuess guess secret = Inr r \<and> credit guess r L \<le> occurrences secret L"
proof -
  obtain r lc where r: "evaluateGuess guess secret = Inr r"
    and inv: "secondInv guess secret NUM_COLS (r, lc)"
    using evaluateGuess_invariant[OF assms] by blast
  from inv have "0 \<le> remaining lc L" and "credit guess r L + remaining lc L = occurrences secret L"
    by (simp_all add: secondInv_def)
  then have "credit guess r L \<le> occurrences secret L" by simp
  with r show ?thesis by blast
qed

section \<open>The evaluator: claims\<close>

text \<open>
  Claim C1, as amended. For the secret \<open>CRANE\<close> and the guess \<open>TRACE\<close> the evaluation is
  \<open>[Absent, Correct, Correct, Present, Correct]\<close>: the \<open>A\<close> of the guess stands where the
  \<open>A\<close> of the secret stands (index 2), so the first pass marks it \<open>Correct\<close>.
\<close>

theorem evaluateGuess_TRACE_CRANE:
  "evaluateGuess ''TRACE'' ''CRANE'' = Inr [Absent, Correct, Correct, Present, Correct]"
  by code_simp

text \<open>
  Claim C1 as the specification states it, with \<open>Present\<close> at index 2, does not hold.
\<close>

theorem evaluateGuess_TRACE_CRANE_counterexample:
  "evaluateGuess ''TRACE'' ''CRANE'' \<noteq> Inr [Absent, Correct, Present, Present, Correct]"
  by code_simp

text \<open>
  Claim C2. For a secret and a guess that are both words (\<open>NUM_COLS\<close> upper-case
  letters), \<open>evaluateGuess\<close> returns an evaluation of \<open>NUM_COLS\<close> marks in which
  position \<open>i\<close> is \<open>Correct\<close> exactly when the guess and the secret have the same letter
  at \<open>i\<close>; evaluating the secret against itself gives \<open>Correct\<close> everywhere.
\<close>

theorem evaluateGuess_correct_iff_equal:
  assumes "isWord G" and "isWord S"
  shows "(\<exists>r. evaluateGuess G S = Inr r \<and> length r = NUM_COLS \<and>
              (\<forall>i<NUM_COLS. (r ! i = Correct) = (G ! i = S ! i))) \<and>
         evaluateGuess S S = Inr (replicate NUM_COLS Correct)"
proof
  obtain r lc where r: "evaluateGuess G S = Inr r" and inv: "secondInv G S NUM_COLS (r, lc)"
    using evaluateGuess_invariant[OF isWord_length[OF assms(1)] isWord_length[OF assms(2)]]
    by blast
  from inv have "length r = NUM_COLS"
    and "\<forall>i<NUM_COLS. (r ! i = Correct) = (G ! i = S ! i)"
    by (simp_all add: secondInv_def isWord_nth[OF assms(1)] isWord_nth[OF assms(2)])
  with r show "\<exists>r. evaluateGuess G S = Inr r \<and> length r = NUM_COLS \<and>
              (\<forall>i<NUM_COLS. (r ! i = Correct) = (G ! i = S ! i))"
    by blast
next
  obtain r lc where r: "evaluateGuess S S = Inr r" and inv: "secondInv S S NUM_COLS (r, lc)"
    using evaluateGuess_invariant[OF isWord_length[OF assms(2)] isWord_length[OF assms(2)]]
    by blast
  from inv have "length r = NUM_COLS" and "\<forall>i<NUM_COLS. r ! i = Correct"
    by (simp_all add: secondInv_def)
  then have "r = replicate NUM_COLS Correct"
    by (simp add: list_eq_iff_nth_eq)
  with r show "evaluateGuess S S = Inr (replicate NUM_COLS Correct)" by simp
qed

theorem evaluateGuess_correct_iff_equal_witness:
  "isWord ''TRACE'' \<and> isWord ''CRANE'' \<and>
   (\<exists>r. evaluateGuess ''TRACE'' ''CRANE'' = Inr r \<and> length r = NUM_COLS \<and>
        (\<forall>i<NUM_COLS. (r ! i = Correct) = (''TRACE'' ! i = ''CRANE'' ! i))) \<and>
   evaluateGuess ''CRANE'' ''CRANE'' = Inr (replicate NUM_COLS Correct)"
proof -
  have g: "isWord ''TRACE''" and s: "isWord ''CRANE''" by code_simp+
  from evaluateGuess_correct_iff_equal[OF g s] g s show ?thesis by blast
qed

text \<open>
  Claim C3. For a secret and a guess that are both words and for every letter \<open>L\<close>, the
  number of positions at which the guess has \<open>L\<close> and the evaluation says \<open>Correct\<close> or
  \<open>Present\<close> is at most the number of occurrences of \<open>L\<close> in the secret.
\<close>

theorem evaluateGuess_no_overcredit:
  assumes "isWord G" and "isWord S"
  shows "\<exists>r. evaluateGuess G S = Inr r \<and>
           length (filter (\<lambda>i. G ! i = L \<and> (r ! i = Correct \<or> r ! i = Present)) [0..<NUM_COLS])
             \<le> count_list S L"
proof -
  obtain r lc where r: "evaluateGuess G S = Inr r" and inv: "secondInv G S NUM_COLS (r, lc)"
    using evaluateGuess_invariant[OF isWord_length[OF assms(1)] isWord_length[OF assms(2)]]
    by blast
  from inv have "0 \<le> remaining lc L" and "credit G r L + remaining lc L = occurrences S L"
    by (simp_all add: secondInv_def)
  then have "credit G r L \<le> occurrences S L" by simp
  then have "length (filter (\<lambda>i. G ! i = L \<and> (r ! i = Correct \<or> r ! i = Present)) [0..<NUM_COLS])
             \<le> count_list S L"
    by (simp add: credit_word[OF assms(1)] occurrences_word[OF assms(2)])
  with r show ?thesis by blast
qed

theorem evaluateGuess_no_overcredit_witness:
  "isWord ''SPEED'' \<and> isWord ''ERASE'' \<and>
   (\<exists>r. evaluateGuess ''SPEED'' ''ERASE'' = Inr r \<and>
      length (filter (\<lambda>i. ''SPEED'' ! i = CHR ''E'' \<and> (r ! i = Correct \<or> r ! i = Present))
                [0..<NUM_COLS])
        \<le> count_list ''ERASE'' CHR ''E'')"
proof -
  have g: "isWord ''SPEED''" and s: "isWord ''ERASE''" by code_simp+
  from evaluateGuess_no_overcredit[OF g s, of "CHR ''E''"] g s show ?thesis by blast
qed

section \<open>Properties of the game session\<close>

subsection \<open>The cases of a submission\<close>

lemma keyStatuses_frame_refl: "\<exists>ks. g = g\<lparr>keyStatuses := ks\<rparr>"
  by (rule exI[where x = "keyStatuses g"]) simp

lemma updateKeyStatus_frame: "\<exists>ks. updateKeyStatus letter newStatus g = g\<lparr>keyStatuses := ks\<rparr>"
proof (cases "keyStatuses g letter")
  case None
  then show ?thesis by (auto simp: updateKeyStatus_def)
next
  case (Some current)
  show ?thesis
  proof (cases "priority current < priority newStatus")
    case True
    then show ?thesis using Some by (auto simp: updateKeyStatus_def)
  next
    case False
    then have "updateKeyStatus letter newStatus g = g" using Some by (simp add: updateKeyStatus_def)
    then show ?thesis using keyStatuses_frame_refl[of g] by simp
  qed
qed

lemma revealEvaluation_frame:
  "\<exists>ks. revealEvaluation row guess evaluation g = g\<lparr>keyStatuses := ks\<rparr>"
proof -
  let ?f = "\<lambda>col g'. case getTile row col g' of
                      None \<Rightarrow> g'
                    | Some t \<Rightarrow> updateKeyStatus (toUpperCase (guess ! col)) (evaluation ! col) g'"
  have step: "\<exists>ks. ?f col g' = g'\<lparr>keyStatuses := ks\<rparr>" for col g'
  proof (cases "getTile row col g'")
    case None
    then show ?thesis using keyStatuses_frame_refl[of g'] by simp
  next
    case (Some t)
    then show ?thesis using updateKeyStatus_frame by simp
  qed
  have "\<exists>ks. fold ?f cols g = g\<lparr>keyStatuses := ks\<rparr>" for cols
  proof (induction cols arbitrary: g)
    case Nil
    show ?case using keyStatuses_frame_refl[of g] by simp
  next
    case (Cons col cols)
    obtain ks1 where ks1: "?f col g = g\<lparr>keyStatuses := ks1\<rparr>" using step by blast
    obtain ks2 where "fold ?f cols (g\<lparr>keyStatuses := ks1\<rparr>) = g\<lparr>keyStatuses := ks1\<rparr>\<lparr>keyStatuses := ks2\<rparr>"
      using Cons.IH by blast
    then have "fold ?f (col # cols) g = g\<lparr>keyStatuses := ks2\<rparr>" using ks1 by simp
    then show ?case by blast
  qed
  then show ?thesis by (simp add: revealEvaluation_def)
qed

lemma submitGuess_too_few_letters:
  "currentCol g < NUM_COLS \<Longrightarrow> submitGuess g = Inr (g\<lparr>message := NotEnoughLetters\<rparr>)"
  by (simp add: submitGuess_def showTemporaryMessage_def showMessage_def)

lemma submitGuess_not_valid:
  "NUM_COLS \<le> currentCol g \<Longrightarrow> \<not> isValidGuess (getCurrentGuess g) \<Longrightarrow>
   submitGuess g = Inr (g\<lparr>message := NotInWordList\<rparr>)"
  by (simp add: submitGuess_def showTemporaryMessage_def showMessage_def Let_def)

lemma evaluateGuess_returns:
  "NUM_COLS \<le> length guess \<Longrightarrow> NUM_COLS \<le> length secret \<Longrightarrow>
   \<exists>evaluation. evaluateGuess guess secret = Inr evaluation"
  using evaluateGuess_invariant by blast

lemma submitGuess_win_eq:
  assumes "NUM_COLS \<le> currentCol g" and "isValidGuess (getCurrentGuess g)"
    and "getCurrentGuess g = secretWord g"
  shows "\<exists>ks. submitGuess g =
           Inr (g\<lparr>keyStatuses := ks, isGameOver := True, gamesPlayed := gamesPlayed g + 1,
                  gamesWon := gamesWon g + 1, currentStreak := currentStreak g + 1,
                  message := YouWon, keyboardDisabled := True, hintDisabled := True\<rparr>)"
proof -
  have len: "NUM_COLS \<le> length (getCurrentGuess g)" "NUM_COLS \<le> length (secretWord g)"
    using assms by (simp_all add: isValidGuess_def)
  obtain evaluation where ev: "evaluateGuess (getCurrentGuess g) (secretWord g) = Inr evaluation"
    using evaluateGuess_returns[OF len] by blast
  obtain ks where ks: "revealEvaluation (currentRow g) (getCurrentGuess g) evaluation g = g\<lparr>keyStatuses := ks\<rparr>"
    using revealEvaluation_frame by blast
  have "submitGuess g =
           Inr (g\<lparr>keyStatuses := ks, isGameOver := True, gamesPlayed := gamesPlayed g + 1,
                  gamesWon := gamesWon g + 1, currentStreak := currentStreak g + 1,
                  message := YouWon, keyboardDisabled := True, hintDisabled := True\<rparr>)"
    using assms ev ks
    by (simp add: submitGuess_def Let_def endGame_def showMessage_def disableKeyboard_def)
  then show ?thesis by blast
qed

lemma submitGuess_wrong_reveal:
  assumes "NUM_COLS \<le> currentCol g" and "isValidGuess (getCurrentGuess g)"
    and "getCurrentGuess g \<noteq> secretWord g" and "NUM_COLS \<le> length (secretWord g)"
  shows "\<exists>ks. submitGuess g =
           (let g2 = g\<lparr>keyStatuses := ks, currentRow := currentRow g + 1, currentCol := 0\<rparr>
            in if currentRow g2 = NUM_ROWS then Inr (endGame False g2) else Inr g2)"
proof -
  have len: "NUM_COLS \<le> length (getCurrentGuess g)"
    using assms by (simp_all add: isValidGuess_def)
  obtain evaluation where ev: "evaluateGuess (getCurrentGuess g) (secretWord g) = Inr evaluation"
    using evaluateGuess_returns[OF len assms(4)] by blast
  obtain ks where ks: "revealEvaluation (currentRow g) (getCurrentGuess g) evaluation g = g\<lparr>keyStatuses := ks\<rparr>"
    using revealEvaluation_frame by blast
  have "submitGuess g =
           (let g2 = g\<lparr>keyStatuses := ks, currentRow := currentRow g + 1, currentCol := 0\<rparr>
            in if currentRow g2 = NUM_ROWS then Inr (endGame False g2) else Inr g2)"
    using assms ev ks by (simp add: submitGuess_def Let_def)
  then show ?thesis by blast
qed

lemma submitGuess_wrong_next:
  assumes "NUM_COLS \<le> currentCol g" and "isValidGuess (getCurrentGuess g)"
    and "getCurrentGuess g \<noteq> secretWord g" and "NUM_COLS \<le> length (secretWord g)"
    and "currentRow g + 1 \<noteq> NUM_ROWS"
  shows "\<exists>ks. submitGuess g =
           Inr (g\<lparr>keyStatuses := ks, currentRow := currentRow g + 1, currentCol := 0\<rparr>)"
  using submitGuess_wrong_reveal[OF assms(1-4)] assms(5) by (simp add: Let_def)

lemma submitGuess_wrong_last:
  assumes "NUM_COLS \<le> currentCol g" and "isValidGuess (getCurrentGuess g)"
    and "getCurrentGuess g \<noteq> secretWord g" and "NUM_COLS \<le> length (secretWord g)"
    and "currentRow g + 1 = NUM_ROWS"
  shows "\<exists>ks. submitGuess g =
           Inr (g\<lparr>keyStatuses := ks, currentRow := NUM_ROWS, currentCol := 0,
                  isGameOver := True, gamesPlayed := gamesPlayed g + 1, currentStreak := 0,
                  message := YouLost (secretWord g), keyboardDisabled := True,
                  hintDisabled := True\<rparr>)"
  using submitGuess_wrong_reveal[OF assms(1-4)] assms(5)
  by (simp add: Let_def endGame_def showMessage_def disableKeyboard_def)

subsection \<open>A secret that is too short\<close>

text \<open>
  With a secret of fewer than \<open>NUM_COLS\<close> characters the first pass reads past its end.
\<close>

lemma forLoop_throws:
  "k \<in> set is \<Longrightarrow> (\<And>a. \<exists>e. body k a = Inl e) \<Longrightarrow> \<exists>e. forLoop is body a = Inl e"
proof (induction "is" arbitrary: a)
  case Nil
  then show ?case by simp
next
  case (Cons i "is")
  show ?case
  proof (cases "body i a")
    case (Inl e)
    then show ?thesis by simp
  next
    case (Inr a')
    then have "k \<noteq> i" using Cons.prems(2)[of a] by auto
    then have "k \<in> set is" using Cons.prems(1) by simp
    from Cons.IH[OF this Cons.prems(2)] Inr show ?thesis by simp
  qed
qed

lemma evaluateGuess_short_secret:
  assumes "length secret < NUM_COLS"
  shows "\<exists>e. evaluateGuess guess secret = Inl e"
proof -
  have "length secret \<in> set [0..<NUM_COLS]" using assms by simp
  moreover have "\<exists>e. firstPass guess secret (length secret) st = Inl e" for st
    by (cases st) (simp add: firstPass_def)
  ultimately have "\<exists>e. forLoop [0..<NUM_COLS] (firstPass guess secret)
      (replicate NUM_COLS Absent, fold countLetter secret Map.empty) = Inl e"
    by (rule forLoop_throws)
  then show ?thesis by (auto simp: evaluateGuess_def)
qed

lemma submitGuess_throws:
  assumes "NUM_COLS \<le> currentCol g" and "isValidGuess (getCurrentGuess g)"
    and "length (secretWord g) < NUM_COLS"
  shows "\<exists>e. submitGuess g = Inl e"
  using assms evaluateGuess_short_secret[OF assms(3), of "getCurrentGuess g"]
  by (auto simp: submitGuess_def Let_def)

subsection \<open>Key events\<close>

lemma keyEvent_game_over: "isGameOver g \<Longrightarrow> keyEvent key g = g"
  by (simp add: keyEvent_def handleKey_def)

lemma play_game_over: "isGameOver g \<Longrightarrow> play keys g = g"
  unfolding play_def by (induction keys) (simp_all add: keyEvent_game_over)

text \<open>
  The functions behind \<open>handleKey\<close> do not test the game-over flag themselves: called
  on its own on a game that has been won, \<open>deleteLetter\<close> would still move the column
  back. In the script they are called from \<open>handleKey\<close> only.
\<close>

lemma deleteLetter_relies_on_handleKey:
  "isGameOver (play (typeGuess ''CRANE'') (initGame 8 pageLoaded)) \<and>
   currentCol (play (typeGuess ''CRANE'') (initGame 8 pageLoaded)) = 5 \<and>
   currentCol (deleteLetter (play (typeGuess ''CRANE'') (initGame 8 pageLoaded))) = 4"
  by code_simp

lemma play_Cons: "play (key # keys) g = play keys (keyEvent key g)"
  by (simp add: play_def)

lemma submitted_game_over: "isGameOver g \<Longrightarrow> submitted keys g = []"
  by (induction keys) (simp_all add: keyEvent_game_over)

lemma keyEvent_no_submission:
  assumes "\<not> (key = ''Enter'' \<and> NUM_COLS \<le> currentCol g \<and> isValidGuess (getCurrentGuess g))"
  shows "secretWord (keyEvent key g) = secretWord g \<and>
         currentRow (keyEvent key g) = currentRow g \<and>
         isGameOver (keyEvent key g) = isGameOver g \<and>
         gamesPlayed (keyEvent key g) = gamesPlayed g \<and>
         gamesWon (keyEvent key g) = gamesWon g"
proof (cases "key = ''Enter''")
  case True
  then consider "currentCol g < NUM_COLS"
    | "NUM_COLS \<le> currentCol g" "\<not> isValidGuess (getCurrentGuess g)"
    using assms by fastforce
  then show ?thesis
  proof cases
    case 1
    then show ?thesis
      using True by (simp add: keyEvent_def handleKey_def submitGuess_too_few_letters)
  next
    case 2
    then show ?thesis
      using True by (simp add: keyEvent_def handleKey_def submitGuess_not_valid)
  qed
next
  case False
  then show ?thesis
    by (simp add: keyEvent_def handleKey_def addLetter_def deleteLetter_def Let_def
        split: option.splits)
qed

lemma keyEvent_wrong_next:
  assumes "\<not> isGameOver g" and "NUM_COLS \<le> currentCol g" and "isValidGuess (getCurrentGuess g)"
    and "getCurrentGuess g \<noteq> secretWord g" and "NUM_COLS \<le> length (secretWord g)"
    and "currentRow g + 1 \<noteq> NUM_ROWS"
  shows "\<exists>ks. keyEvent ''Enter'' g =
           g\<lparr>keyStatuses := ks, currentRow := currentRow g + 1, currentCol := 0\<rparr>"
  using submitGuess_wrong_next[OF assms(2-6)] assms(1)
  by (auto simp: keyEvent_def handleKey_def)

lemma keyEvent_wrong_last:
  assumes "\<not> isGameOver g" and "NUM_COLS \<le> currentCol g" and "isValidGuess (getCurrentGuess g)"
    and "getCurrentGuess g \<noteq> secretWord g" and "NUM_COLS \<le> length (secretWord g)"
    and "currentRow g + 1 = NUM_ROWS"
  shows "\<exists>ks. keyEvent ''Enter'' g =
           g\<lparr>keyStatuses := ks, currentRow := NUM_ROWS, currentCol := 0,
             isGameOver := True, gamesPlayed := gamesPlayed g + 1, currentStreak := 0,
             message := YouLost (secretWord g), keyboardDisabled := True,
             hintDisabled := True\<rparr>"
  using submitGuess_wrong_last[OF assms(2-6)] assms(1)
  by (auto simp: keyEvent_def handleKey_def)

subsection \<open>The bounds of the cursor\<close>

lemma withinBounds_initGame: "withinBounds (initGame randomIndex g)"
  by (simp add: withinBounds_def initGame_def Let_def ANSWER_WORDS_def buildBoard_def
      enableKeyboard_def clearMessage_def showMessage_def NUM_ROWS_def)

lemma withinBounds_addLetter: "withinBounds g \<Longrightarrow> withinBounds (addLetter letter g)"
  by (auto simp: withinBounds_def addLetter_def split: option.splits if_splits)

lemma withinBounds_deleteLetter: "withinBounds g \<Longrightarrow> withinBounds (deleteLetter g)"
  by (auto simp: withinBounds_def deleteLetter_def Let_def split: option.splits if_splits)

lemma withinBounds_submitGuess:
  assumes "withinBounds g" and "submitGuess g = Inr g'"
  shows "withinBounds g'"
proof -
  consider (incomplete) "currentCol g < NUM_COLS"
    | (invalid) "NUM_COLS \<le> currentCol g" "\<not> isValidGuess (getCurrentGuess g)"
    | (valid) "NUM_COLS \<le> currentCol g" "isValidGuess (getCurrentGuess g)"
    by fastforce
  then show ?thesis
  proof cases
    case incomplete
    then show ?thesis using assms by (auto simp: submitGuess_too_few_letters withinBounds_def)
  next
    case invalid
    then show ?thesis using assms by (auto simp: submitGuess_not_valid withinBounds_def)
  next
    case valid
    from assms(2) valid obtain evaluation
      where ev: "evaluateGuess (getCurrentGuess g) (secretWord g) = Inr evaluation"
      by (auto simp: submitGuess_def Let_def split: sum.splits)
    obtain ks where ks: "revealEvaluation (currentRow g) (getCurrentGuess g) evaluation g = g\<lparr>keyStatuses := ks\<rparr>"
      using revealEvaluation_frame by blast
    have row: "currentRow g < NUM_ROWS"
      using assms(1) valid(1) by (auto simp: withinBounds_def NUM_COLS_def split: if_splits)
    show ?thesis
      using assms valid ev ks row
      by (auto simp: submitGuess_def Let_def endGame_def showMessage_def disableKeyboard_def
          withinBounds_def split: if_splits)
  qed
qed

lemma withinBounds_keyEvent: "withinBounds g \<Longrightarrow> withinBounds (keyEvent key g)"
  by (auto simp: keyEvent_def handleKey_def withinBounds_addLetter withinBounds_deleteLetter
      withinBounds_submitGuess split: sum.splits)

lemma withinBounds_play: "withinBounds g \<Longrightarrow> withinBounds (play keys g)"
  unfolding play_def by (induction keys arbitrary: g) (simp_all add: withinBounds_keyEvent)

subsection \<open>The hint flag\<close>

lemma hasUsedHint_addLetter: "hasUsedHint (addLetter letter g) = hasUsedHint g"
  by (simp add: addLetter_def split: option.splits)

lemma hasUsedHint_deleteLetter: "hasUsedHint (deleteLetter g) = hasUsedHint g"
  by (simp add: deleteLetter_def Let_def split: option.splits)

lemma revealEvaluation_hasUsedHint:
  "hasUsedHint (revealEvaluation row guess evaluation g) = hasUsedHint g"
proof -
  obtain ks where "revealEvaluation row guess evaluation g = g\<lparr>keyStatuses := ks\<rparr>"
    using revealEvaluation_frame by blast
  then show ?thesis by simp
qed

lemma hasUsedHint_submitGuess: "submitGuess g = Inr g' \<Longrightarrow> hasUsedHint g' = hasUsedHint g"
  by (auto simp: submitGuess_def Let_def endGame_def showMessage_def showTemporaryMessage_def
      disableKeyboard_def revealEvaluation_hasUsedHint split: if_splits sum.splits)

lemma hasUsedHint_keyEvent: "hasUsedHint (keyEvent key g) = hasUsedHint g"
  by (auto simp: keyEvent_def handleKey_def hasUsedHint_addLetter hasUsedHint_deleteLetter
      hasUsedHint_submitGuess split: sum.splits)

lemma hasUsedHint_play: "hasUsedHint (play keys g) = hasUsedHint g"
  unfolding play_def by (induction keys arbitrary: g) (simp_all add: hasUsedHint_keyEvent)

lemma hasUsedHint_act: "hasUsedHint g \<Longrightarrow> hasUsedHint (act a g)"
  by (cases a) (simp_all add: act_def hasUsedHint_keyEvent handleHint_def)

lemma hasUsedHint_course: "hasUsedHint g \<Longrightarrow> hasUsedHint (course actions g)"
  unfolding course_def by (induction actions arbitrary: g) (simp_all add: hasUsedHint_act)

subsection \<open>Key statuses\<close>

lemma improved_refl: "improved a a"
  by (simp add: improved_def split: option.splits)

lemma improved_trans: "improved a b \<Longrightarrow> improved b c \<Longrightarrow> improved a c"
  by (auto simp: improved_def split: option.splits)

lemma improved_updateKeyStatus:
  "improved (keyStatuses g letter) (keyStatuses (updateKeyStatus l newStatus g) letter)"
  by (auto simp: improved_def updateKeyStatus_def split: option.splits)

lemma improved_updates:
  "improved (keyStatuses g letter)
     (keyStatuses (fold (\<lambda>(l, s). updateKeyStatus l s) updates g) letter)"
proof (induction updates arbitrary: g)
  case Nil
  show ?case by (simp add: improved_refl)
next
  case (Cons u updates)
  obtain l s where u: "u = (l, s)" by (cases u)
  show ?case
    using improved_trans[OF improved_updateKeyStatus[of g letter l s] Cons.IH[of "updateKeyStatus l s g"]]
    by (simp add: u)
qed

lemma priority_Correct_max: "priority s \<le> priority Correct"
  by (cases s) (simp_all add: priority_def)

lemma improved_revealEvaluation:
  "improved (keyStatuses g letter) (keyStatuses (revealEvaluation row guess evaluation g) letter)"
proof -
  let ?f = "\<lambda>col g'. case getTile row col g' of
                      None \<Rightarrow> g'
                    | Some t \<Rightarrow> updateKeyStatus (toUpperCase (guess ! col)) (evaluation ! col) g'"
  have step: "improved (keyStatuses g' letter) (keyStatuses (?f col g') letter)" for col g'
    by (cases "getTile row col g'") (simp_all add: improved_refl improved_updateKeyStatus)
  have "improved (keyStatuses g letter) (keyStatuses (fold ?f cols g) letter)" for cols
  proof (induction cols arbitrary: g)
    case Nil
    show ?case by (simp add: improved_refl)
  next
    case (Cons col cols)
    show ?case
      using improved_trans[OF step[of g col] Cons.IH[of "?f col g"]] by simp
  qed
  then show ?thesis by (simp add: revealEvaluation_def)
qed

lemma improved_submitGuess:
  "submitGuess g = Inr g' \<Longrightarrow> improved (keyStatuses g letter) (keyStatuses g' letter)"
  by (auto simp: submitGuess_def Let_def endGame_def showMessage_def showTemporaryMessage_def
      disableKeyboard_def improved_refl improved_revealEvaluation split: if_splits sum.splits)

lemma keyStatuses_addLetter: "keyStatuses (addLetter letter g) = keyStatuses g"
  by (simp add: addLetter_def split: option.splits)

lemma keyStatuses_deleteLetter: "keyStatuses (deleteLetter g) = keyStatuses g"
  by (simp add: deleteLetter_def Let_def split: option.splits)

lemma improved_keyEvent: "improved (keyStatuses g letter) (keyStatuses (keyEvent key g) letter)"
  by (auto simp: keyEvent_def handleKey_def keyStatuses_addLetter keyStatuses_deleteLetter
      improved_refl improved_submitGuess split: sum.splits)

lemma improved_play: "improved (keyStatuses g letter) (keyStatuses (play keys g) letter)"
  unfolding play_def
proof (induction keys arbitrary: g)
  case Nil
  show ?case by (simp add: improved_refl)
next
  case (Cons key keys)
  show ?case
    using improved_trans[OF improved_keyEvent[of g letter key] Cons.IH[of "keyEvent key g"]]
    by simp
qed

subsection \<open>A game that is lost\<close>

lemma loss_after_remaining_rows:
  assumes "NUM_COLS \<le> length (secretWord g)" and "\<not> isGameOver g"
    and "currentRow g < NUM_ROWS"
    and "length (submitted keys g) = NUM_ROWS - currentRow g"
    and "secretWord g \<notin> set (submitted keys g)"
  shows "isGameOver (play keys g) \<and> message (play keys g) = YouLost (secretWord g) \<and>
         gamesPlayed (play keys g) = gamesPlayed g + 1 \<and>
         gamesWon (play keys g) = gamesWon g \<and>
         currentStreak (play keys g) = 0 \<and> currentRow (play keys g) = NUM_ROWS"
  using assms
proof (induction keys arbitrary: g)
  case Nil
  then show ?case by simp
next
  case (Cons key keys)
  let ?sub = "key = ''Enter'' \<and> NUM_COLS \<le> currentCol g \<and> isValidGuess (getCurrentGuess g)"
  show ?case
  proof (cases ?sub)
    case False
    note same = keyEvent_no_submission[OF False]
    have sub: "submitted (key # keys) g = submitted keys (keyEvent key g)"
      using False by auto
    have "isGameOver (play keys (keyEvent key g)) \<and>
          message (play keys (keyEvent key g)) = YouLost (secretWord (keyEvent key g)) \<and>
          gamesPlayed (play keys (keyEvent key g)) = gamesPlayed (keyEvent key g) + 1 \<and>
          gamesWon (play keys (keyEvent key g)) = gamesWon (keyEvent key g) \<and>
          currentStreak (play keys (keyEvent key g)) = 0 \<and>
          currentRow (play keys (keyEvent key g)) = NUM_ROWS"
      using Cons.prems same sub by (intro Cons.IH) simp_all
    then show ?thesis using same by (simp add: play_Cons)
  next
    case True
    then have key: "key = ''Enter''" and complete: "NUM_COLS \<le> currentCol g"
      and valid: "isValidGuess (getCurrentGuess g)" by simp_all
    have sub: "submitted (key # keys) g = getCurrentGuess g # submitted keys (keyEvent key g)"
      using True Cons.prems(2) by simp
    then have wrong: "getCurrentGuess g \<noteq> secretWord g"
      using Cons.prems(5) by auto
    show ?thesis
    proof (cases "currentRow g + 1 = NUM_ROWS")
      case True
      from keyEvent_wrong_last[OF Cons.prems(2) complete valid wrong Cons.prems(1) True]
      obtain ks where "keyEvent ''Enter'' g =
           g\<lparr>keyStatuses := ks, currentRow := NUM_ROWS, currentCol := 0,
             isGameOver := True, gamesPlayed := gamesPlayed g + 1, currentStreak := 0,
             message := YouLost (secretWord g), keyboardDisabled := True,
             hintDisabled := True\<rparr>" by blast
      then show ?thesis
        by (simp add: play_Cons key play_game_over)
    next
      case False
      from keyEvent_wrong_next[OF Cons.prems(2) complete valid wrong Cons.prems(1) False]
      obtain ks where next_state: "keyEvent ''Enter'' g =
           g\<lparr>keyStatuses := ks, currentRow := currentRow g + 1, currentCol := 0\<rparr>" by blast
      have "isGameOver (play keys (keyEvent key g)) \<and>
          message (play keys (keyEvent key g)) = YouLost (secretWord (keyEvent key g)) \<and>
          gamesPlayed (play keys (keyEvent key g)) = gamesPlayed (keyEvent key g) + 1 \<and>
          gamesWon (play keys (keyEvent key g)) = gamesWon (keyEvent key g) \<and>
          currentStreak (play keys (keyEvent key g)) = 0 \<and>
          currentRow (play keys (keyEvent key g)) = NUM_ROWS"
        using Cons.prems sub False next_state key by (intro Cons.IH) auto
      then show ?thesis using next_state key by (simp add: play_Cons)
    qed
  qed
qed

lemma ANSWER_WORDS_length:
  "randomIndex < length ANSWER_WORDS \<Longrightarrow> length (ANSWER_WORDS ! randomIndex) = NUM_COLS"
proof -
  have "list_all (\<lambda>w. length w = NUM_COLS) ANSWER_WORDS"
    by (simp add: ANSWER_WORDS_def NUM_COLS_def)
  then show "randomIndex < length ANSWER_WORDS \<Longrightarrow> length (ANSWER_WORDS ! randomIndex) = NUM_COLS"
    by (simp add: list_all_length)
qed

lemma initGame_fields:
  "secretWord (initGame randomIndex g) = map toUpperCase (ANSWER_WORDS ! randomIndex)"
  "currentRow (initGame randomIndex g) = 0"
  "currentCol (initGame randomIndex g) = 0"
  "\<not> isGameOver (initGame randomIndex g)"
  "\<not> hasUsedHint (initGame randomIndex g)"
  "gamesPlayed (initGame randomIndex g) = gamesPlayed g"
  "gamesWon (initGame randomIndex g) = gamesWon g"
  "currentStreak (initGame randomIndex g) = currentStreak g"
  by (simp_all add: initGame_def Let_def ANSWER_WORDS_def buildBoard_def
      enableKeyboard_def clearMessage_def showMessage_def)

section \<open>The game session: claims\<close>

text \<open>
  Claim C4, as amended. In a game that is not over, has a secret and has not used its
  hint, \<open>handleHint\<close> sets the hint-used flag, disables the hint button and shows the
  first letter of the secret, and changes nothing else. After that, and after any
  further key events and hint clicks of the same game, a call of \<open>handleHint\<close>
  returns the state as it is: it changes nothing and shows nothing.
\<close>

theorem handleHint_one_time:
  assumes "\<not> isGameOver g" and "\<not> hasUsedHint g" and "secretWord g \<noteq> []"
  shows "handleHint g =
           g\<lparr>hasUsedHint := True, hintDisabled := True,
             message := HintMessage (hd (secretWord g))\<rparr> \<and>
         handleHint (course actions (handleHint g)) = course actions (handleHint g)"
proof -
  have first: "handleHint g =
           g\<lparr>hasUsedHint := True, hintDisabled := True,
             message := HintMessage (hd (secretWord g))\<rparr>"
    using assms by (simp add: handleHint_def showMessage_def Let_def)
  then have "hasUsedHint (handleHint g)" by simp
  then have "hasUsedHint (course actions (handleHint g))" by (rule hasUsedHint_course)
  then have "handleHint (course actions (handleHint g)) = course actions (handleHint g)"
    by (simp add: handleHint_def)
  with first show ?thesis by simp
qed

theorem handleHint_one_time_witness:
  "\<not> isGameOver (initGame 8 pageLoaded) \<and> \<not> hasUsedHint (initGame 8 pageLoaded) \<and>
   secretWord (initGame 8 pageLoaded) \<noteq> [] \<and>
   handleHint (initGame 8 pageLoaded) =
     (initGame 8 pageLoaded)\<lparr>hasUsedHint := True, hintDisabled := True,
        message := HintMessage (hd (secretWord (initGame 8 pageLoaded)))\<rparr> \<and>
   handleHint (course [KeyPress ''Enter'', HintClick, KeyPress ''S'']
       (handleHint (initGame 8 pageLoaded))) =
     course [KeyPress ''Enter'', HintClick, KeyPress ''S''] (handleHint (initGame 8 pageLoaded))"
proof -
  have a: "\<not> isGameOver (initGame 8 pageLoaded)" and b: "\<not> hasUsedHint (initGame 8 pageLoaded)"
    and c: "secretWord (initGame 8 pageLoaded) \<noteq> []"
    by code_simp+
  from handleHint_one_time[OF a b c, of "[KeyPress ''Enter'', HintClick, KeyPress ''S'']"] a b c
  show ?thesis by blast
qed

text \<open>
  Claim C4 as the specification states it, with every call showing the first letter,
  does not hold: the first call shows the letter \<open>C\<close> of \<open>CRANE\<close>; after Enter on
  an empty row the message is "Not enough letters", the game is still on, and a second
  call of \<open>handleHint\<close> leaves that message in place.
\<close>

theorem handleHint_second_call_counterexample:
  "message (handleHint (initGame 8 pageLoaded)) = HintMessage CHR ''C'' \<and>
   \<not> isGameOver (keyEvent ''Enter'' (handleHint (initGame 8 pageLoaded))) \<and>
   message (handleHint (keyEvent ''Enter'' (handleHint (initGame 8 pageLoaded)))) =
     NotEnoughLetters"
  by code_simp

text \<open>
  Claim C5. When the game-over flag is set, a key event of any kind (a letter, Backspace,
  Enter, or anything else) is handled by returning the state as it is; in particular
  \<open>currentRow\<close> and \<open>currentCol\<close> keep their values. The guard is the first
  statement of \<open>handleKey\<close>, the only caller of \<open>addLetter\<close>, \<open>deleteLetter\<close> and
  \<open>submitGuess\<close>. This holds for every state, reachable or not.
\<close>

theorem handleKey_after_game_over:
  "isGameOver g \<Longrightarrow>
   handleKey key g = Inr g \<and>
   currentRow (keyEvent key g) = currentRow g \<and> currentCol (keyEvent key g) = currentCol g"
  by (simp add: handleKey_def keyEvent_def)

theorem handleKey_after_game_over_witness:
  "isGameOver (play (typeGuess ''CRANE'') (initGame 8 pageLoaded)) \<and>
   handleKey ''Backspace'' (play (typeGuess ''CRANE'') (initGame 8 pageLoaded)) =
     Inr (play (typeGuess ''CRANE'') (initGame 8 pageLoaded)) \<and>
   currentRow (keyEvent ''Backspace'' (play (typeGuess ''CRANE'') (initGame 8 pageLoaded))) =
     currentRow (play (typeGuess ''CRANE'') (initGame 8 pageLoaded)) \<and>
   currentCol (keyEvent ''Backspace'' (play (typeGuess ''CRANE'') (initGame 8 pageLoaded))) =
     currentCol (play (typeGuess ''CRANE'') (initGame 8 pageLoaded))"
proof -
  have over: "isGameOver (play (typeGuess ''CRANE'') (initGame 8 pageLoaded))"
    by code_simp
  from handleKey_after_game_over[OF over, of "''Backspace''"] over show ?thesis by blast
qed

text \<open>
  Claim C6. For every letter that has a status, after any sequence of calls of
  \<open>updateKeyStatus\<close>, and likewise after any sequence of key events, the letter still
  has a status, and it is the old one or one of strictly higher priority; a letter that
  is \<open>Correct\<close> stays \<open>Correct\<close>.
\<close>

theorem keyStatuses_never_downgraded:
  assumes "keyStatuses g letter = Some old"
  shows "(\<exists>new. keyStatuses (fold (\<lambda>(l, s). updateKeyStatus l s) updates g) letter = Some new \<and>
           (new = old \<or> priority old < priority new) \<and>
           (old = Correct \<longrightarrow> new = Correct)) \<and>
         (\<exists>new. keyStatuses (play keys g) letter = Some new \<and>
           (new = old \<or> priority old < priority new) \<and>
           (old = Correct \<longrightarrow> new = Correct))"
proof -
  have *: "\<exists>new. after = Some new \<and> (new = old \<or> priority old < priority new) \<and>
           (old = Correct \<longrightarrow> new = Correct)"
    if "improved (keyStatuses g letter) after" for after
  proof -
    from that assms obtain new where new: "after = Some new"
      and up: "new = old \<or> priority old < priority new"
      by (auto simp: improved_def split: option.splits)
    have "old = Correct \<longrightarrow> new = Correct"
      using up priority_Correct_max[of new] by auto
    with new up show ?thesis by blast
  qed
  show ?thesis
    using *[OF improved_updates[of g letter updates]] *[OF improved_play[of g letter keys]]
    by blast
qed

theorem keyStatuses_never_downgraded_witness:
  "keyStatuses (play (typeGuess ''TRACE'') (initGame 8 pageLoaded)) CHR ''A'' = Some Correct \<and>
   keyStatuses (fold (\<lambda>(l, s). updateKeyStatus l s) [(CHR ''A'', Present), (CHR ''A'', Absent)]
      (play (typeGuess ''TRACE'') (initGame 8 pageLoaded))) CHR ''A'' = Some Correct \<and>
   keyStatuses (play (typeGuess ''SALAD'') (play (typeGuess ''TRACE'') (initGame 8 pageLoaded)))
      CHR ''A'' = Some Correct"
proof -
  have a: "keyStatuses (play (typeGuess ''TRACE'') (initGame 8 pageLoaded)) CHR ''A'' = Some Correct"
    by code_simp
  from keyStatuses_never_downgraded[OF a,
      of "[(CHR ''A'', Present), (CHR ''A'', Absent)]" "typeGuess ''SALAD''"] a
  show ?thesis by auto
qed

text \<open>
  Claim C7. In every state reached from a fresh game by key events, \<open>currentCol\<close> is at
  most \<open>NUM_COLS\<close> and \<open>currentRow\<close> is at most \<open>NUM_ROWS\<close>.
\<close>

theorem play_within_bounds:
  "currentCol (play keys (initGame randomIndex g)) \<le> NUM_COLS \<and>
   currentRow (play keys (initGame randomIndex g)) \<le> NUM_ROWS"
  using withinBounds_play[OF withinBounds_initGame, of keys randomIndex g]
  by (simp add: withinBounds_def)

theorem play_within_bounds_witness:
  "currentCol (play (typeGuess ''TRACE'' @ [''S'', ''A'', ''Backspace'']) (initGame 8 pageLoaded))
     \<le> NUM_COLS \<and>
   currentRow (play (typeGuess ''TRACE'' @ [''S'', ''A'', ''Backspace'']) (initGame 8 pageLoaded))
     \<le> NUM_ROWS"
  by (rule play_within_bounds)

text \<open>
  Claim C8. When \<open>currentCol\<close> is below \<open>NUM_COLS\<close>, \<open>submitGuess\<close> returns normally,
  shows "Not enough letters" and changes nothing else: \<open>currentRow\<close>, \<open>currentCol\<close>
  and every other field but the message are as before.
\<close>

theorem submitGuess_incomplete:
  "currentCol g < NUM_COLS \<Longrightarrow>
   submitGuess g = Inr (g\<lparr>message := NotEnoughLetters\<rparr>) \<and>
   (\<exists>g'. submitGuess g = Inr g' \<and> message g' = NotEnoughLetters \<and>
      currentRow g' = currentRow g \<and> currentCol g' = currentCol g)"
  by (simp add: submitGuess_def showTemporaryMessage_def showMessage_def)

theorem submitGuess_incomplete_witness:
  "currentCol (play [''C'', ''R''] (initGame 8 pageLoaded)) < NUM_COLS \<and>
   submitGuess (play [''C'', ''R''] (initGame 8 pageLoaded)) =
     Inr ((play [''C'', ''R''] (initGame 8 pageLoaded))\<lparr>message := NotEnoughLetters\<rparr>) \<and>
   (\<exists>g'. submitGuess (play [''C'', ''R''] (initGame 8 pageLoaded)) = Inr g' \<and>
      message g' = NotEnoughLetters \<and>
      currentRow g' = currentRow (play [''C'', ''R''] (initGame 8 pageLoaded)) \<and>
      currentCol g' = currentCol (play [''C'', ''R''] (initGame 8 pageLoaded)))"
proof -
  have col: "currentCol (play [''C'', ''R''] (initGame 8 pageLoaded)) < NUM_COLS"
    by code_simp
  from submitGuess_incomplete[OF col] col show ?thesis by blast
qed

text \<open>
  Claim C9. In a game started by \<open>initGame\<close> in which the key events submit
  \<open>NUM_ROWS\<close> valid guesses, none of them the secret, the game ends over and lost: the
  message names the secret, \<open>gamesPlayed\<close> is one more than before the game,
  \<open>gamesWon\<close> is as before, and \<open>currentStreak\<close> is zero.
\<close>

theorem six_wrong_guesses_lose:
  assumes "randomIndex < length ANSWER_WORDS"
    and "length (submitted keys (initGame randomIndex g)) = NUM_ROWS"
    and "secretWord (initGame randomIndex g) \<notin> set (submitted keys (initGame randomIndex g))"
  shows "isGameOver (play keys (initGame randomIndex g)) \<and>
         message (play keys (initGame randomIndex g)) =
           YouLost (secretWord (initGame randomIndex g)) \<and>
         gamesPlayed (play keys (initGame randomIndex g)) = gamesPlayed g + 1 \<and>
         gamesWon (play keys (initGame randomIndex g)) = gamesWon g \<and>
         currentStreak (play keys (initGame randomIndex g)) = 0"
proof -
  let ?g = "initGame randomIndex g"
  have "NUM_COLS \<le> length (secretWord ?g)"
    using ANSWER_WORDS_length[OF assms(1)] by (simp add: initGame_fields)
  moreover have "\<not> isGameOver ?g" by (rule initGame_fields)
  moreover have "currentRow ?g < NUM_ROWS" by (simp add: initGame_fields NUM_ROWS_def)
  moreover have "length (submitted keys ?g) = NUM_ROWS - currentRow ?g"
    using assms(2) by (simp add: initGame_fields)
  ultimately show ?thesis
    using loss_after_remaining_rows[of ?g keys] assms(3) by (simp add: initGame_fields)
qed

theorem six_wrong_guesses_lose_witness:
  "(8::nat) < length ANSWER_WORDS \<and>
   length (submitted (concat (replicate 6 (typeGuess ''TRACE''))) (initGame 8 pageLoaded)) = NUM_ROWS \<and>
   secretWord (initGame 8 pageLoaded) \<notin>
     set (submitted (concat (replicate 6 (typeGuess ''TRACE''))) (initGame 8 pageLoaded)) \<and>
   isGameOver (play (concat (replicate 6 (typeGuess ''TRACE''))) (initGame 8 pageLoaded)) \<and>
   message (play (concat (replicate 6 (typeGuess ''TRACE''))) (initGame 8 pageLoaded)) =
     YouLost (secretWord (initGame 8 pageLoaded)) \<and>
   gamesPlayed (play (concat (replicate 6 (typeGuess ''TRACE''))) (initGame 8 pageLoaded)) =
     gamesPlayed pageLoaded + 1 \<and>
   gamesWon (play (concat (replicate 6 (typeGuess ''TRACE''))) (initGame 8 pageLoaded)) =
     gamesWon pageLoaded \<and>
   currentStreak (play (concat (replicate 6 (typeGuess ''TRACE''))) (initGame 8 pageLoaded)) = 0"
proof -
  let ?keys = "concat (replicate 6 (typeGuess ''TRACE''))"
  have a: "(8::nat) < length ANSWER_WORDS" by code_simp
  have b: "length (submitted ?keys (initGame 8 pageLoaded)) = NUM_ROWS" by code_simp
  have c: "secretWord (initGame 8 pageLoaded) \<notin> set (submitted ?keys (initGame 8 pageLoaded))"
    by code_simp
  from six_wrong_guesses_lose[OF a b c] a b c show ?thesis by blast
qed

text \<open>
  Claim C10. When \<open>submitGuess\<close> is called on a complete row whose guess is valid and
  equals the secret, it returns with the game over and won, the row where it was and the
  column still at \<open>NUM_COLS\<close>. And whenever \<open>submitGuess\<close> returns with another row
  or another column than before, the guess was complete, valid and not the secret, the
  row has moved on by one and the column is zero.
\<close>

theorem submitGuess_win_keeps_position:
  "(currentCol g = NUM_COLS \<and> isValidGuess (getCurrentGuess g) \<and>
      getCurrentGuess g = secretWord g \<longrightarrow>
      (\<exists>g'. submitGuess g = Inr g' \<and> isGameOver g' \<and> message g' = YouWon \<and>
         gamesWon g' = gamesWon g + 1 \<and>
         currentRow g' = currentRow g \<and> currentCol g' = NUM_COLS)) \<and>
   (\<forall>g'. submitGuess g = Inr g' \<and>
      (currentRow g' \<noteq> currentRow g \<or> currentCol g' \<noteq> currentCol g) \<longrightarrow>
      NUM_COLS \<le> currentCol g \<and> isValidGuess (getCurrentGuess g) \<and>
      getCurrentGuess g \<noteq> secretWord g \<and>
      currentRow g' = currentRow g + 1 \<and> currentCol g' = 0)"
proof -
  have win: "\<exists>g'. submitGuess g = Inr g' \<and> isGameOver g' \<and> message g' = YouWon \<and>
         gamesWon g' = gamesWon g + 1 \<and>
         currentRow g' = currentRow g \<and> currentCol g' = NUM_COLS"
    if a: "currentCol g = NUM_COLS" "isValidGuess (getCurrentGuess g)"
      "getCurrentGuess g = secretWord g"
  proof -
    have "NUM_COLS \<le> currentCol g" using a by simp
    from submitGuess_win_eq[OF this a(2,3)] obtain ks where
      "submitGuess g =
         Inr (g\<lparr>keyStatuses := ks, isGameOver := True, gamesPlayed := gamesPlayed g + 1,
                gamesWon := gamesWon g + 1, currentStreak := currentStreak g + 1,
                message := YouWon, keyboardDisabled := True, hintDisabled := True\<rparr>)"
      by blast
    then show ?thesis using a by simp
  qed
  have move: "NUM_COLS \<le> currentCol g \<and> isValidGuess (getCurrentGuess g) \<and>
      getCurrentGuess g \<noteq> secretWord g \<and>
      currentRow g' = currentRow g + 1 \<and> currentCol g' = 0"
    if b: "submitGuess g = Inr g'"
      "currentRow g' \<noteq> currentRow g \<or> currentCol g' \<noteq> currentCol g" for g'
  proof -
    have complete: "NUM_COLS \<le> currentCol g"
    proof (rule ccontr)
      assume "\<not> NUM_COLS \<le> currentCol g"
      then have "submitGuess g = Inr (g\<lparr>message := NotEnoughLetters\<rparr>)"
        by (simp add: submitGuess_too_few_letters)
      with b show False by auto
    qed
    have valid: "isValidGuess (getCurrentGuess g)"
    proof (rule ccontr)
      assume "\<not> isValidGuess (getCurrentGuess g)"
      then have "submitGuess g = Inr (g\<lparr>message := NotInWordList\<rparr>)"
        using complete by (simp add: submitGuess_not_valid)
      with b show False by auto
    qed
    have wrong: "getCurrentGuess g \<noteq> secretWord g"
    proof
      assume "getCurrentGuess g = secretWord g"
      from submitGuess_win_eq[OF complete valid this] b show False by auto
    qed
    have secret: "NUM_COLS \<le> length (secretWord g)"
    proof (rule ccontr)
      assume "\<not> NUM_COLS \<le> length (secretWord g)"
      then have "length (secretWord g) < NUM_COLS" by simp
      from submitGuess_throws[OF complete valid this] b show False by auto
    qed
    have "currentRow g' = currentRow g + 1 \<and> currentCol g' = 0"
    proof (cases "currentRow g + 1 = NUM_ROWS")
      case True
      from submitGuess_wrong_last[OF complete valid wrong secret True] b(1)
      show ?thesis using True by auto
    next
      case False
      from submitGuess_wrong_next[OF complete valid wrong secret False] b(1)
      show ?thesis by auto
    qed
    then show ?thesis using complete valid wrong by simp
  qed
  show ?thesis using win move by blast
qed

theorem submitGuess_win_keeps_position_witness:
  "(currentCol (play (map (\<lambda>c. [c]) ''CRANE'') (initGame 8 pageLoaded)) = NUM_COLS \<and>
    isValidGuess (getCurrentGuess (play (map (\<lambda>c. [c]) ''CRANE'') (initGame 8 pageLoaded))) \<and>
    getCurrentGuess (play (map (\<lambda>c. [c]) ''CRANE'') (initGame 8 pageLoaded)) =
      secretWord (play (map (\<lambda>c. [c]) ''CRANE'') (initGame 8 pageLoaded))) \<and>
   (\<exists>g'. submitGuess (play (map (\<lambda>c. [c]) ''CRANE'') (initGame 8 pageLoaded)) = Inr g' \<and>
      isGameOver g' \<and> message g' = YouWon \<and>
      gamesWon g' = gamesWon (play (map (\<lambda>c. [c]) ''CRANE'') (initGame 8 pageLoaded)) + 1 \<and>
      currentRow g' = currentRow (play (map (\<lambda>c. [c]) ''CRANE'') (initGame 8 pageLoaded)) \<and>
      currentCol g' = NUM_COLS) \<and>
   (\<exists>g'. submitGuess (play (map (\<lambda>c. [c]) ''TRACE'') (initGame 8 pageLoaded)) = Inr g' \<and>
      currentRow g' \<noteq> currentRow (play (map (\<lambda>c. [c]) ''TRACE'') (initGame 8 pageLoaded)) \<and>
      getCurrentGuess (play (map (\<lambda>c. [c]) ''TRACE'') (initGame 8 pageLoaded)) \<noteq>
        secretWord (play (map (\<lambda>c. [c]) ''TRACE'') (initGame 8 pageLoaded)) \<and>
      currentRow g' = currentRow (play (map (\<lambda>c. [c]) ''TRACE'') (initGame 8 pageLoaded)) + 1 \<and>
      currentCol g' = 0)"
proof -
  let ?g = "play (map (\<lambda>c. [c]) ''CRANE'') (initGame 8 pageLoaded)"
  let ?n = "play (map (\<lambda>c. [c]) ''TRACE'') (initGame 8 pageLoaded)"
  have h: "currentCol ?g = NUM_COLS \<and> isValidGuess (getCurrentGuess ?g) \<and>
    getCurrentGuess ?g = secretWord ?g"
    by code_simp
  have "case submitGuess ?n of Inl e \<Rightarrow> False | Inr g' \<Rightarrow> currentRow g' \<noteq> currentRow ?n"
    by code_simp
  then obtain g' where n: "submitGuess ?n = Inr g'" "currentRow g' \<noteq> currentRow ?n"
    by (auto split: sum.splits)
  from submitGuess_win_keeps_position[of ?n] n
  have "\<exists>g'. submitGuess ?n = Inr g' \<and> currentRow g' \<noteq> currentRow ?n \<and>
      getCurrentGuess ?n \<noteq> secretWord ?n \<and>
      currentRow g' = currentRow ?n + 1 \<and> currentCol g' = 0"
    by blast
  with submitGuess_win_keeps_position[of ?g] h show ?thesis by blast
qed

end
